theory Spec2Isabelle
  imports Main "HOL-Library.AList" "HOL-Library.Multiset"
begin

section \<open>Values and exceptions\<close>

text \<open>
  A JSON-decoded Python value, as \<^verbatim>\<open>response.json()\<close> returns it. A decoded object is a
  \<^verbatim>\<open>dict\<close>: an association list looked up with \<open>map_of\<close>. Of a number only its
  truth value is ever observed by the code, so one integer payload stands for both
  Python number types (zero is false, everything else is true).
\<close>

datatype json =
    JNull
  | JBool bool
  | JNum int
  | JStr string
  | JArr "json list"
  | JObj "(string \<times> json) list"

text \<open>The exceptions the modelled code can meet. All of them derive from \<^verbatim>\<open>Exception\<close>.\<close>

datatype py_exn =
    AttributeError
  | TypeError
  | ValueError
  | OSError
  | JSONDecodeError
  | RequestException

text \<open>
  \<^verbatim>\<open>d.get(key, default)\<close>: defined on a \<^verbatim>\<open>dict\<close> only; every other JSON value
  (\<^verbatim>\<open>None\<close>, \<^verbatim>\<open>bool\<close>, numbers, \<^verbatim>\<open>str\<close>, \<^verbatim>\<open>list\<close>) has no attribute \<^verbatim>\<open>get\<close>.
\<close>

fun py_get :: "json \<Rightarrow> string \<Rightarrow> json \<Rightarrow> py_exn + json" where
  "py_get (JObj kvs) k d = Inr (case map_of kvs k of None \<Rightarrow> d | Some v \<Rightarrow> v)"
| "py_get _ k d = Inl AttributeError"

text \<open>
  \<^verbatim>\<open>x[:10]\<close> followed by iteration: a list gives its first ten elements, a string its
  first ten characters (each a one-character string); a \<^verbatim>\<open>dict\<close> cannot be indexed by
  a slice and the remaining values are not subscriptable.
\<close>

fun top_10_of :: "json \<Rightarrow> py_exn + json list" where
  "top_10_of (JArr xs) = Inr (take 10 xs)"
| "top_10_of (JStr s) = Inr (map (\<lambda>c. JStr [c]) (take 10 s))"
| "top_10_of _ = Inl TypeError"

section \<open>Library model: urllib.parse\<close>

text \<open>
  \<^verbatim>\<open>urlparse(url).hostname\<close> belongs to the Python standard library. The functions of the
  program take it as a parameter \<open>up\<close> of type \<open>json \<Rightarrow> py_exn + string option\<close>
  (the value passed, and either the exception raised or the \<^verbatim>\<open>hostname\<close> attribute), so
  that what is proved of them holds for every behaviour of the library. The executable
  model below follows the library's algorithm on ASCII text (leading control characters
  and blanks stripped, tab and newline characters removed, scheme cut off, network
  location up to the first of \<^verbatim>\<open>/ ? #\<close>, unbalanced brackets rejected, user information
  and port removed, host lower-cased up to a zone identifier) and is used to evaluate
  the program at concrete inputs.
\<close>

definition c0_control_or_space :: "char \<Rightarrow> bool" where
  "c0_control_or_space c \<longleftrightarrow> (of_char c :: nat) \<le> 32"

definition unsafe_url_byte :: "char \<Rightarrow> bool" where
  "unsafe_url_byte c \<longleftrightarrow> (of_char c :: nat) \<in> {9, 10, 13}"

definition ascii_upper :: "char \<Rightarrow> bool" where
  "ascii_upper c \<longleftrightarrow> 65 \<le> (of_char c :: nat) \<and> (of_char c :: nat) \<le> 90"

definition ascii_alpha :: "char \<Rightarrow> bool" where
  "ascii_alpha c \<longleftrightarrow> ascii_upper c \<or> (97 \<le> (of_char c :: nat) \<and> (of_char c :: nat) \<le> 122)"

definition scheme_char :: "char \<Rightarrow> bool" where
  "scheme_char c \<longleftrightarrow>
     ascii_alpha c \<or> (48 \<le> (of_char c :: nat) \<and> (of_char c :: nat) \<le> 57) \<or> c \<in> set ''+-.''"

definition lower_char :: "char \<Rightarrow> char" where
  "lower_char c = (if ascii_upper c then char_of ((of_char c :: nat) + 32) else c)"

definition strip_scheme :: "string \<Rightarrow> string" where
  "strip_scheme url =
     (let i = length (takeWhile (\<lambda>c. c \<noteq> CHR '':'') url)
      in if CHR '':'' \<in> set url \<and> 0 < i \<and> ascii_alpha (hd url) \<and> list_all scheme_char (take i url)
         then drop (Suc i) url else url)"

definition urlsplit_netloc :: "string \<Rightarrow> py_exn + string" where
  "urlsplit_netloc s =
     (let url = strip_scheme (filter (\<lambda>c. \<not> unsafe_url_byte c) (dropWhile c0_control_or_space s));
          netloc = (if take 2 url = ''//''
                    then takeWhile (\<lambda>c. c \<notin> set ''/?#'') (drop 2 url) else [])
      in if (CHR ''['' \<in> set netloc \<and> CHR '']'' \<notin> set netloc)
            \<or> (CHR '']'' \<in> set netloc \<and> CHR ''['' \<notin> set netloc)
         then Inl ValueError else Inr netloc)"

definition hostname_of_netloc :: "string \<Rightarrow> string option" where
  "hostname_of_netloc netloc =
     (let hostinfo = rev (takeWhile (\<lambda>c. c \<noteq> CHR ''@'') (rev netloc));
          hostname = (if CHR ''['' \<in> set hostinfo
                      then takeWhile (\<lambda>c. c \<noteq> CHR '']'')
                             (drop 1 (dropWhile (\<lambda>c. c \<noteq> CHR ''['') hostinfo))
                      else takeWhile (\<lambda>c. c \<noteq> CHR '':'') hostinfo)
      in if hostname = [] then None
         else Some (map lower_char (takeWhile (\<lambda>c. c \<noteq> CHR ''%'') hostname)
                    @ dropWhile (\<lambda>c. c \<noteq> CHR ''%'') hostname))"

text \<open>
  A value that is not a string is decoded as bytes by the library: a false value
  becomes the empty URL, a true one has no \<^verbatim>\<open>decode\<close> attribute.
\<close>

fun py_truthy :: "json \<Rightarrow> bool" where
  "py_truthy JNull = False"
| "py_truthy (JBool b) = b"
| "py_truthy (JNum n) = (n \<noteq> 0)"
| "py_truthy (JStr s) = (s \<noteq> [])"
| "py_truthy (JArr xs) = (xs \<noteq> [])"
| "py_truthy (JObj kvs) = (kvs \<noteq> [])"

fun urlparse_hostname :: "json \<Rightarrow> py_exn + string option" where
  "urlparse_hostname (JStr s) =
     (case urlsplit_netloc s of Inl e \<Rightarrow> Inl e | Inr netloc \<Rightarrow> Inr (hostname_of_netloc netloc))"
| "urlparse_hostname v = (if py_truthy v then Inl AttributeError else Inr None)"

text \<open>
  Later versions of the library also examine a host written in brackets and raise
  \<^verbatim>\<open>ValueError\<close> unless it is an IPv6 or IPvFuture address. \<open>urlparse_hostname_with\<close>
  takes that examination as the parameter \<open>ok\<close>; \<open>urlparse_hostname\<close> is the library
  without it. The two agree on every URL whose network location has no brackets.
\<close>

definition bracketed_host :: "string \<Rightarrow> string" where
  "bracketed_host netloc =
     takeWhile (\<lambda>c. c \<noteq> CHR '']'') (drop 1 (dropWhile (\<lambda>c. c \<noteq> CHR ''['') netloc))"

fun urlparse_hostname_with :: "(string \<Rightarrow> bool) \<Rightarrow> json \<Rightarrow> py_exn + string option" where
  "urlparse_hostname_with ok (JStr s) =
     (case urlsplit_netloc s of
        Inl e \<Rightarrow> Inl e
      | Inr netloc \<Rightarrow>
          if CHR ''['' \<in> set netloc \<and> CHR '']'' \<in> set netloc \<and> \<not> ok (bracketed_host netloc)
          then Inl ValueError
          else Inr (hostname_of_netloc netloc))"
| "urlparse_hostname_with ok v = urlparse_hostname v"

section \<open>Library model: pandas\<close>

text \<open>
  \<^verbatim>\<open>pd.Series(links).value_counts().to_dict()\<close>: one entry per distinct value with the
  number of its occurrences, most frequent first. The result is a Python \<^verbatim>\<open>dict\<close>, which
  keeps the order of insertion, hence an association list with distinct keys. Values
  with equal counts stand here in the order of their first occurrence; nothing below
  depends on that.
\<close>

definition uniques :: "'a list \<Rightarrow> 'a list" where
  "uniques xs = rev (remdups (rev xs))"

definition value_counts :: "string list \<Rightarrow> (string \<times> nat) list" where
  "value_counts links =
     sort_key (\<lambda>(h, c). - int c) (map (\<lambda>h. (h, count_list links h)) (uniques links))"

section \<open>The program\<close>

subsection \<open>extract_hostname\<close>

text \<open>
  \<^verbatim>\<open>try: return urlparse(url).hostname  except Exception: return None\<close>.
  The absence marker \<^verbatim>\<open>None\<close> is \<open>None\<close>.
\<close>

definition extract_hostname :: "(json \<Rightarrow> py_exn + string option) \<Rightarrow> json \<Rightarrow> string option" where
  "extract_hostname up url = (case up url of Inl e \<Rightarrow> None | Inr hostname \<Rightarrow> hostname)"

subsection \<open>parse_organic_results\<close>

text \<open>
  The chain \<^verbatim>\<open>json_data.get("results", {}).get("results", {}).get("organic", [])\<close>.
\<close>

definition organic_results_of :: "json \<Rightarrow> py_exn + json" where
  "organic_results_of json_data =
     (case py_get json_data ''results'' (JObj []) of
        Inl e \<Rightarrow> Inl e
      | Inr r1 \<Rightarrow>
          (case py_get r1 ''results'' (JObj []) of
             Inl e \<Rightarrow> Inl e
           | Inr r2 \<Rightarrow> py_get r2 ''organic'' (JArr [])))"

text \<open>
  The loop over \<^verbatim>\<open>top_10\<close>, with the list \<^verbatim>\<open>links\<close> as accumulator. \<^verbatim>\<open>if hostname:\<close>
  rejects \<^verbatim>\<open>None\<close> and the empty string.
\<close>

fun collect_links ::
  "(json \<Rightarrow> py_exn + string option) \<Rightarrow> json list \<Rightarrow> string list \<Rightarrow> py_exn + string list" where
  "collect_links up [] links = Inr links"
| "collect_links up (result # rest) links =
     (case py_get result ''link'' (JStr []) of
        Inl e \<Rightarrow> Inl e
      | Inr link \<Rightarrow>
          (case extract_hostname up link of
             None \<Rightarrow> collect_links up rest links
           | Some hostname \<Rightarrow>
               if hostname \<noteq> [] then collect_links up rest (links @ [hostname])
               else collect_links up rest links))"

text \<open>The call of \<^verbatim>\<open>print\<close> writes to the standard output only and is left out.\<close>

definition parse_organic_results ::
  "(json \<Rightarrow> py_exn + string option) \<Rightarrow> json \<Rightarrow> py_exn + (string \<times> nat) list" where
  "parse_organic_results up json_data =
     (case organic_results_of json_data of
        Inl e \<Rightarrow> Inl e
      | Inr organic_results \<Rightarrow>
          (case top_10_of organic_results of
             Inl e \<Rightarrow> Inl e
           | Inr top_10 \<Rightarrow>
               (case collect_links up top_10 [] of
                  Inl e \<Rightarrow> Inl e
                | Inr links \<Rightarrow> Inr (value_counts links))))"

subsection \<open>append_to_csv\<close>

text \<open>
  A row written by \<^verbatim>\<open>writer.writerow([search_term, hostname, count])\<close>, a file as the
  list of its rows, and the file system as a function from file names to files (a file
  that does not exist yet has no rows: mode \<^verbatim>\<open>"a"\<close> creates it). Opening the file can
  fail; \<open>writable\<close> says for which names it succeeds. The file is opened before the first
  row is written, so a failure leaves the file as it was.
\<close>

type_synonym hostname_count = "(string \<times> nat) list"

type_synonym csv_row = "string \<times> string \<times> nat"

type_synonym file_system = "string \<Rightarrow> csv_row list"

definition append_to_csv ::
  "(string \<Rightarrow> bool) \<Rightarrow> file_system \<Rightarrow> string \<Rightarrow> hostname_count \<Rightarrow> string \<Rightarrow> py_exn + file_system" where
  "append_to_csv writable fs filename data search_term =
     (if writable filename
      then Inr (fs(filename := fs filename @ map (\<lambda>(hostname, count). (search_term, hostname, count)) data))
      else Inl OSError)"

subsection \<open>call_api\<close>

text \<open>
  The request payload built by \<^verbatim>\<open>main\<close> is \<^verbatim>\<open>{"data": {...}}\<close> with string values: a
  record with the one field \<open>data\<close>, so that \<^verbatim>\<open>payload["data"]\<close> always exists. The
  assignment \<^verbatim>\<open>payload["data"]["q"] = search_term\<close> writes into the object the caller
  passed: the model returns the payload after the call next to the function's result.
  \<open>AList.update\<close> is the assignment to a key of a \<^verbatim>\<open>dict\<close>: an existing key keeps its
  place, a new one goes to the end.
\<close>

record payload =
  data :: "(string \<times> string) list"

record http_response =
  status_code :: int
  json_body :: "py_exn + json"

text \<open>
  \<^verbatim>\<open>requests.post(api_url, json=payload, headers=headers)\<close> is the network: a parameter
  that maps the request to the exception raised or to the response, whose \<open>json_body\<close>
  is what \<^verbatim>\<open>response.json()\<close> raises or returns.
\<close>

type_synonym http_post = "string \<Rightarrow> (string \<times> string) list \<Rightarrow> payload \<Rightarrow> py_exn + http_response"

definition request_headers :: "string \<Rightarrow> (string \<times> string) list" where
  "request_headers api_key =
     [(''accept'', ''application/json''),
      (''authorization'', ''Bearer '' @ api_key),
      (''content-type'', ''application/json'')]"

definition set_search_term :: "payload \<Rightarrow> string \<Rightarrow> payload" where
  "set_search_term payload search_term =
     payload\<lparr>data := AList.update ''q'' search_term (data payload)\<rparr>"

text \<open>
  The \<^verbatim>\<open>try\<close> block of \<^verbatim>\<open>call_api\<close>: the request with the payload as it is when the
  request is made, the test of the status, the decoding of the body and the result
  parser. Every exception raised inside ends in the \<^verbatim>\<open>except\<close> clause.
\<close>

definition post_and_parse ::
  "(json \<Rightarrow> py_exn + string option) \<Rightarrow> http_post \<Rightarrow> string \<Rightarrow> (string \<times> string) list \<Rightarrow> payload
     \<Rightarrow> string \<Rightarrow> string \<times> hostname_count option" where
  "post_and_parse up post api_url headers payload search_term =
     (case post api_url headers payload of
        Inl e \<Rightarrow> (search_term, None)
      | Inr response \<Rightarrow>
          if status_code response = 200
          then (case json_body response of
                  Inl e \<Rightarrow> (search_term, None)
                | Inr json_data \<Rightarrow>
                    (case parse_organic_results up json_data of
                       Inl e \<Rightarrow> (search_term, None)
                     | Inr hostname_count \<Rightarrow> (search_term, Some hostname_count)))
          else (search_term, None))"

definition call_api ::
  "(json \<Rightarrow> py_exn + string option) \<Rightarrow> http_post \<Rightarrow> string \<Rightarrow> string \<Rightarrow> payload \<Rightarrow> string
     \<Rightarrow> payload \<times> (string \<times> hostname_count option)" where
  "call_api up post api_url api_key payload search_term =
     (let headers = request_headers api_key;
          payload' = set_search_term payload search_term
      in (payload', post_and_parse up post api_url headers payload' search_term))"

subsection \<open>process_in_batches\<close>

text \<open>
  A finished future: the pair \<^verbatim>\<open>call_api\<close> returned, and the term the dictionary
  \<^verbatim>\<open>futures\<close> keeps for it. A message shown by \<^verbatim>\<open>st.error\<close> is kept with the values
  its text is built from.
\<close>

type_synonym future = "(string \<times> hostname_count option) \<times> string"

datatype notice =
    Failed_to_process string
  | Error_processing string py_exn

fun notice_term :: "notice \<Rightarrow> string" where
  "notice_term (Failed_to_process search_term) = search_term"
| "notice_term (Error_processing term e) = term"

record batch_state =
  results :: "(string \<times> hostname_count) list"
  files :: file_system
  notices :: "notice list"

text \<open>
  The call submitted as number \<open>i\<close> is answered by \<open>post i\<close>, so that the network may
  answer equal requests differently. \<open>submit_calls\<close> is the run in which the calls are
  made one after the other, each from its assignment to its return before the next
  begins, as a single worker makes them.
\<close>

fun submit_calls ::
  "(json \<Rightarrow> py_exn + string option) \<Rightarrow> (nat \<Rightarrow> http_post) \<Rightarrow> string \<Rightarrow> string \<Rightarrow> payload \<Rightarrow> nat
     \<Rightarrow> string list \<Rightarrow> payload \<times> future list" where
  "submit_calls up post api_url api_key payload i [] = (payload, [])"
| "submit_calls up post api_url api_key payload i (term # terms) =
     (case call_api up (post i) api_url api_key payload term of
        (payload', r) \<Rightarrow>
          (case submit_calls up post api_url api_key payload' (Suc i) terms of
             (payload'', futures) \<Rightarrow> (payload'', (r, term) # futures)))"

text \<open>
  Two statements of \<^verbatim>\<open>call_api\<close> touch the payload that all workers of the pool
  share: the assignment of the term, and the request, which serialises the payload as
  it is at that moment. The threads of the pool can be switched between the two. Given
  the steps in the order in which the workers take them (a step names the number of
  the call that takes it), \<open>requests_sent\<close> lists the payloads that go out, each with
  the number of its call, and \<open>payload_after\<close> is the shared payload when all steps
  are taken.
\<close>

datatype worker_step =
    Assign_term nat
  | Send_request nat

fun requests_sent :: "string list \<Rightarrow> worker_step list \<Rightarrow> payload \<Rightarrow> (nat \<times> payload) list" where
  "requests_sent terms [] payload = []"
| "requests_sent terms (Assign_term i # steps) payload =
     (if i < length terms
      then requests_sent terms steps (set_search_term payload (terms ! i))
      else requests_sent terms steps payload)"
| "requests_sent terms (Send_request i # steps) payload =
     (if i < length terms
      then (i, payload) # requests_sent terms steps payload
      else requests_sent terms steps payload)"

fun payload_after :: "string list \<Rightarrow> worker_step list \<Rightarrow> payload \<Rightarrow> payload" where
  "payload_after terms [] payload = payload"
| "payload_after terms (Assign_term i # steps) payload =
     (if i < length terms
      then payload_after terms steps (set_search_term payload (terms ! i))
      else payload_after terms steps payload)"
| "payload_after terms (Send_request i # steps) payload = payload_after terms steps payload"

text \<open>
  The futures of a run of the pool, in the order in which the requests go out: each
  call returns its own term with what \<open>post_and_parse\<close> makes of the payload that the
  call sent.
\<close>

definition pool_futures ::
  "(json \<Rightarrow> py_exn + string option) \<Rightarrow> (nat \<Rightarrow> http_post) \<Rightarrow> string \<Rightarrow> string \<Rightarrow> string list
     \<Rightarrow> worker_step list \<Rightarrow> payload \<Rightarrow> future list" where
  "pool_futures up post api_url api_key terms steps payload =
     map (\<lambda>(i, request).
            (post_and_parse up (post i) api_url (request_headers api_key) request (terms ! i),
             terms ! i))
         (requests_sent terms steps payload)"

text \<open>
  The schedules of a pool of \<open>k\<close> workers for \<open>n\<close> calls: every call takes each of its
  two steps once, the assignment before the request, and at no time are more than
  \<open>k\<close> calls between their two steps. \<open>sequential_schedule\<close> is the schedule of
  \<open>submit_calls\<close>.
\<close>

fun pool_respected :: "nat \<Rightarrow> nat \<Rightarrow> worker_step list \<Rightarrow> bool" where
  "pool_respected k running [] = True"
| "pool_respected k running (Assign_term i # steps) =
     (running < k \<and> pool_respected k (Suc running) steps)"
| "pool_respected k running (Send_request i # steps) = pool_respected k (running - 1) steps"

definition valid_schedule :: "nat \<Rightarrow> nat \<Rightarrow> worker_step list \<Rightarrow> bool" where
  "valid_schedule k n steps \<longleftrightarrow>
     distinct steps
     \<and> set steps = set (map Assign_term [0..<n] @ map Send_request [0..<n])
     \<and> list_all (\<lambda>i. Assign_term i \<in> set (takeWhile (\<lambda>s. s \<noteq> Send_request i) steps)) [0..<n]
     \<and> pool_respected k 0 steps"

definition sequential_schedule :: "nat \<Rightarrow> worker_step list" where
  "sequential_schedule n = concat (map (\<lambda>i. [Assign_term i, Send_request i]) [0..<n])"

text \<open>
  The body of the loop over \<^verbatim>\<open>as_completed(futures)\<close>. \<^verbatim>\<open>if hostname_count:\<close> rejects
  \<^verbatim>\<open>None\<close> and the empty mapping. An exception of \<^verbatim>\<open>append_to_csv\<close> is caught by the
  \<^verbatim>\<open>except\<close> clause, which reports the term of the dictionary.
\<close>

fun handle_future :: "(string \<Rightarrow> bool) \<Rightarrow> string \<Rightarrow> future \<Rightarrow> batch_state \<Rightarrow> batch_state" where
  "handle_future writable output_csv ((search_term, hostname_count), term) st =
     (case hostname_count of
        None \<Rightarrow> st\<lparr>notices := notices st @ [Failed_to_process search_term]\<rparr>
      | Some m \<Rightarrow>
          if m \<noteq> [] then
            (case append_to_csv writable (files st) output_csv m search_term of
               Inl e \<Rightarrow> st\<lparr>notices := notices st @ [Error_processing term e]\<rparr>
             | Inr fs' \<Rightarrow> st\<lparr>files := fs', results := results st @ [(search_term, m)]\<rparr>)
          else st\<lparr>notices := notices st @ [Failed_to_process search_term]\<rparr>)"

fun consume :: "(string \<Rightarrow> bool) \<Rightarrow> string \<Rightarrow> future list \<Rightarrow> batch_state \<Rightarrow> batch_state" where
  "consume writable output_csv [] st = st"
| "consume writable output_csv (f # fs) st =
     consume writable output_csv fs (handle_future writable output_csv f st)"

text \<open>
  \<^verbatim>\<open>ThreadPoolExecutor(max_workers=batch_size)\<close> raises \<^verbatim>\<open>ValueError\<close> unless
  \<^verbatim>\<open>batch_size\<close> is positive. The run of the pool is given by the schedule of the
  workers' steps, and \<^verbatim>\<open>as_completed\<close> yields the futures in the order in which they
  finish, a parameter that rearranges the list of futures. The result is the payload
  after the run and the list \<^verbatim>\<open>results\<close> with the files and the notices.
\<close>

definition process_in_batches ::
  "(json \<Rightarrow> py_exn + string option) \<Rightarrow> (nat \<Rightarrow> http_post) \<Rightarrow> worker_step list
     \<Rightarrow> (future list \<Rightarrow> future list) \<Rightarrow> (string \<Rightarrow> bool) \<Rightarrow> file_system
     \<Rightarrow> string \<Rightarrow> string \<Rightarrow> payload \<Rightarrow> string list \<Rightarrow> string \<Rightarrow> int
     \<Rightarrow> py_exn + (payload \<times> batch_state)" where
  "process_in_batches up post schedule as_completed writable fs
       api_url api_key payload search_terms output_csv batch_size =
     (if batch_size \<le> 0 then Inl ValueError
      else
        Inr (payload_after search_terms schedule payload,
             consume writable output_csv
               (as_completed (pool_futures up post api_url api_key search_terms schedule payload))
               \<lparr>results = [], files = fs, notices = []\<rparr>))"

section \<open>Inputs for the statements\<close>

text \<open>
  The hostname one organic entry contributes: the entry's \<^verbatim>\<open>link\<close> (the empty string
  when the key is absent) passed through \<open>extract_hostname\<close>, kept when it is neither
  \<^verbatim>\<open>None\<close> nor empty. \<open>surviving_hostnames\<close> lists them for a sequence of entries, in
  the order of the entries.
\<close>

definition hostname_of_entry ::
  "(json \<Rightarrow> py_exn + string option) \<Rightarrow> (string \<times> json) list \<Rightarrow> string option" where
  "hostname_of_entry up kvs =
     (case extract_hostname up (case map_of kvs ''link'' of None \<Rightarrow> JStr [] | Some link \<Rightarrow> link) of
        None \<Rightarrow> None
      | Some hostname \<Rightarrow> if hostname = [] then None else Some hostname)"

definition surviving_hostnames ::
  "(json \<Rightarrow> py_exn + string option) \<Rightarrow> (string \<times> json) list list \<Rightarrow> string list" where
  "surviving_hostnames up entries = List.map_filter (hostname_of_entry up) entries"







text \<open>A response body of the shape the API documents, and an organic entry with a link.\<close>

definition organic_body :: "json list \<Rightarrow> json" where
  "organic_body organic =
     JObj [(''results'', JObj [(''results'', JObj [(''organic'', JArr organic)])])]"

definition link_fields :: "string \<Rightarrow> (string \<times> json) list" where
  "link_fields url = [(''title'', JStr ''t''), (''link'', JStr url)]"

definition link_entry :: "string \<Rightarrow> json" where
  "link_entry url = JObj (link_fields url)"

definition example_links :: "string list" where
  "example_links =
     [''https://a.com/1'', ''https://a.com/2'', ''http://A.com:8080/3'',
      ''https://b.org/'', ''https://b.org/x?y=1'',
      ''https://c.net/1'', ''https://c.net/2'', ''https://c.net/3'', ''https://user@c.net/4'',
      ''https://d.io/#top'',
      ''https://e.example/eleventh'']"

text \<open>
  What one finished future contributes when the loop of \<open>process_in_batches\<close> handles
  it: \<open>succeeded\<close> is the test \<^verbatim>\<open>if hostname_count:\<close>, \<open>rows_of\<close> the rows of its mapping,
  \<open>results_of\<close> its entry in \<^verbatim>\<open>results\<close> and \<open>notices_of\<close> its notice, given whether the
  output file can be opened.
\<close>

definition succeeded :: "future \<Rightarrow> bool" where
  "succeeded f \<longleftrightarrow> (case snd (fst f) of None \<Rightarrow> False | Some m \<Rightarrow> m \<noteq> [])"

definition rows_of :: "future \<Rightarrow> csv_row list" where
  "rows_of f =
     (case snd (fst f) of
        None \<Rightarrow> []
      | Some m \<Rightarrow> map (\<lambda>(hostname, count). (fst (fst f), hostname, count)) m)"

definition results_of :: "bool \<Rightarrow> future \<Rightarrow> (string \<times> hostname_count) list" where
  "results_of w f =
     (case snd (fst f) of
        None \<Rightarrow> []
      | Some m \<Rightarrow> if m \<noteq> [] \<and> w then [(fst (fst f), m)] else [])"

definition notices_of :: "bool \<Rightarrow> future \<Rightarrow> notice list" where
  "notices_of w f =
     (if succeeded f then (if w then [] else [Error_processing (snd f) OSError])
      else [Failed_to_process (fst (fst f))])"

text \<open>
  A payload as \<^verbatim>\<open>main\<close> builds it from the defaults of the form, and a network that
  answers by the search term of the request: a full result page, a server error, a
  page without organic results, a connection error, a body whose \<^verbatim>\<open>results\<close> is
  \<^verbatim>\<open>null\<close>, and a body that is not JSON for every other request.
\<close>

definition example_template :: payload where
  "example_template =
     \<lparr>data = [(''domain'', ''google.com''), (''loc'', ''Delhi,India''), (''lang'', ''en''),
              (''device'', ''desktop''), (''serp_type'', ''web''), (''page'', ''1''),
              (''verbatim'', ''0'')]\<rparr>"

definition example_url :: string where
  "example_url = ''https://api.serphouse.com/serp/live''"

definition example_post :: http_post where
  "example_post api_url headers payload =
     (let q = map_of (data payload) ''q'' in
      if q = Some ''shoes''
        then Inr \<lparr>status_code = 200, json_body = Inr (organic_body (map link_entry example_links))\<rparr>
      else if q = Some ''socks''
        then Inr \<lparr>status_code = 500, json_body = Inr (JObj [(''status'', JStr ''error'')])\<rparr>
      else if q = Some ''hats''
        then Inr \<lparr>status_code = 200, json_body = Inr (organic_body [])\<rparr>
      else if q = Some ''gloves''
        then Inl RequestException
      else if q = Some ''scarves''
        then Inr \<lparr>status_code = 200, json_body = Inr (JObj [(''results'', JNull)])\<rparr>
      else Inr \<lparr>status_code = 200, json_body = Inl JSONDecodeError\<rparr>)"

definition example_terms :: "string list" where
  "example_terms = [''shoes'', ''socks'', ''hats'', ''gloves'', ''scarves'']"

text \<open>
  A schedule for the five example terms with a pool of two workers: the calls for
  socks and shoes both assign before either sends, shoes last, so that both requests
  carry shoes; the other calls run one after the other.
\<close>

definition example_schedule :: "worker_step list" where
  "example_schedule =
     [Assign_term 1, Assign_term 0, Send_request 1, Send_request 0,
      Assign_term 2, Send_request 2, Assign_term 3, Send_request 3,
      Assign_term 4, Send_request 4]"

definition example_counts :: hostname_count where
  "example_counts = [(''c.net'', 4), (''a.com'', 3), (''b.org'', 2), (''d.io'', 1)]"

section \<open>Facts about the library models\<close>

lemma set_uniques: "set (uniques xs) = set xs"
  by (simp add: uniques_def)

lemma distinct_uniques: "distinct (uniques xs)"
  by (simp add: uniques_def)

lemma set_value_counts: "set (value_counts xs) = (\<lambda>h. (h, count_list xs h)) ` set xs"
  by (simp add: value_counts_def set_uniques)

lemma distinct_keys_value_counts: "distinct (map fst (value_counts xs))"
proof -
  have "mset (map fst (value_counts xs)) = mset (uniques xs)"
    by (simp add: value_counts_def multiset.map_comp comp_def)
  then show ?thesis
    using distinct_uniques [of xs] by (metis distinct_count_atmost_1 set_mset_mset)
qed

lemma map_of_value_counts:
  "map_of (value_counts xs) h = (if h \<in> set xs then Some (count_list xs h) else None)"
proof (cases "h \<in> set xs")
  case True
  then have "(h, count_list xs h) \<in> set (value_counts xs)"
    by (auto simp: set_value_counts)
  then show ?thesis
    using True distinct_keys_value_counts by simp
next
  case False
  then have "h \<notin> fst ` set (value_counts xs)"
    by (auto simp: set_value_counts)
  then show ?thesis
    using False by (simp add: map_of_eq_None_iff)
qed

lemma value_counts_descending: "sorted_wrt (\<lambda>a b. snd b \<le> snd a) (value_counts xs)"
proof -
  have "sorted (map (\<lambda>(h, c). - int c) (value_counts xs))"
    unfolding value_counts_def by (rule sorted_sort_key)
  then show ?thesis
    by (simp add: sorted_wrt_map sorted_wrt_iff_nth_less case_prod_beta)
qed

lemma value_counts_Nil: "value_counts [] = []"
  by (simp add: value_counts_def uniques_def)

lemma value_counts_eq_Nil: "value_counts xs = [] \<longleftrightarrow> xs = []"
proof -
  have "set (value_counts xs) = {} \<longleftrightarrow> set xs = {}"
    by (simp add: set_value_counts)
  then show ?thesis by simp
qed














lemma urlparse_hostname_with_no_brackets:
  assumes "urlsplit_netloc s = Inr netloc" and "CHR ''['' \<notin> set netloc"
  shows "urlparse_hostname_with ok (JStr s) = urlparse_hostname (JStr s)"
  using assms by simp

section \<open>The hostname extractor\<close>




section \<open>The result parser\<close>

lemma collect_links_objects:
  "collect_links up (map JObj entries) acc = Inr (acc @ surviving_hostnames up entries)"
  unfolding surviving_hostnames_def
  by (induction entries arbitrary: acc)
     (auto simp: List.map_filter_simps hostname_of_entry_def split: option.splits)

lemma collect_links_append:
  "collect_links up (xs @ ys) acc =
     (case collect_links up xs acc of Inl e \<Rightarrow> Inl e | Inr links \<Rightarrow> collect_links up ys links)"
  by (induction xs arbitrary: acc) (auto split: sum.splits option.splits)

lemma collect_links_skip:
  "hostname_of_entry up kvs = None \<Longrightarrow>
   collect_links up (JObj kvs # rest) acc = collect_links up rest acc"
  by (auto simp: hostname_of_entry_def split: option.splits if_splits)

lemma parse_via_organic:
  "organic_results_of json_data = Inr (JArr es) \<Longrightarrow>
   parse_organic_results up json_data =
     (case collect_links up (take 10 es) [] of
        Inl e \<Rightarrow> Inl e
      | Inr links \<Rightarrow> Inr (value_counts links))"
  by (simp add: parse_organic_results_def)

lemma organic_results_of_organic_body: "organic_results_of (organic_body es) = Inr (JArr es)"
  by (simp add: organic_results_of_def organic_body_def)

lemma parse_is_value_counts:
  "parse_organic_results up json_data = Inr m \<Longrightarrow> \<exists>links. m = value_counts links"
  by (auto simp: parse_organic_results_def split: sum.splits)

text \<open>
  Claim C4. The result parser looks at the first ten elements of the organic list
  only, in the order of the list: two bodies whose organic lists agree on their first
  ten elements give the same result, whatever follows. An element without a hostname
  keeps its place among the ten: with such an element in the window, the result is the
  one for the other nine elements of the window, and the element that follows the
  window does not move up.
\<close>

theorem parse_considers_first_ten:
  "(organic_results_of a = Inr (JArr xs) \<and> organic_results_of b = Inr (JArr ys)
      \<and> take 10 xs = take 10 ys
      \<longrightarrow> parse_organic_results up a = parse_organic_results up b)
   \<and> (organic_results_of a = Inr (JArr (pre @ JObj kvs # post)) \<and> length pre < 10
      \<and> hostname_of_entry up kvs = None
      \<and> organic_results_of b = Inr (JArr (pre @ take (9 - length pre) post))
      \<longrightarrow> parse_organic_results up a = parse_organic_results up b)"
proof (intro conjI impI)
  assume "organic_results_of a = Inr (JArr xs) \<and> organic_results_of b = Inr (JArr ys)
      \<and> take 10 xs = take 10 ys"
  then show "parse_organic_results up a = parse_organic_results up b"
    by (simp add: parse_via_organic)
next
  assume h: "organic_results_of a = Inr (JArr (pre @ JObj kvs # post)) \<and> length pre < 10
      \<and> hostname_of_entry up kvs = None
      \<and> organic_results_of b = Inr (JArr (pre @ take (9 - length pre) post))"
  then have n: "10 - length pre = Suc (9 - length pre)"
    by arith
  have "collect_links up (take 10 (pre @ JObj kvs # post)) []
        = collect_links up (take 10 (pre @ take (9 - length pre) post)) []"
    using h
    by (simp add: collect_links_append n collect_links_skip del: collect_links.simps
          split: sum.splits)
  with h show "parse_organic_results up a = parse_organic_results up b"
    by (simp add: parse_via_organic)
qed

theorem parse_considers_first_ten_witness:
  "parse_organic_results urlparse_hostname
       (organic_body (replicate 10 (link_entry ''https://a.com/'') @ [link_entry ''https://b.org/'']))
     = parse_organic_results urlparse_hostname
         (organic_body (replicate 10 (link_entry ''https://a.com/'')))
   \<and> parse_organic_results urlparse_hostname
       (organic_body (JObj [(''title'', JStr ''t'')]
          # replicate 9 (link_entry ''https://a.com/'') @ [link_entry ''https://b.org/'']))
     = parse_organic_results urlparse_hostname
         (organic_body (replicate 9 (link_entry ''https://a.com/'')))
   \<and> parse_organic_results urlparse_hostname
         (organic_body (replicate 9 (link_entry ''https://a.com/''))) = Inr [(''a.com'', 9)]"
proof -
  let ?A = "link_entry ''https://a.com/''"
  let ?B = "link_entry ''https://b.org/''"
  let ?K = "[(''title'', JStr ''t'')]"
  have h1: "organic_results_of (organic_body (replicate 10 ?A @ [?B]))
              = Inr (JArr (replicate 10 ?A @ [?B]))
            \<and> organic_results_of (organic_body (replicate 10 ?A)) = Inr (JArr (replicate 10 ?A))
            \<and> take 10 (replicate 10 ?A @ [?B]) = take 10 (replicate 10 ?A)"
    by (simp add: organic_results_of_organic_body)
  have k: "hostname_of_entry urlparse_hostname ?K = None"
    by code_simp
  have h2: "organic_results_of (organic_body (JObj ?K # replicate 9 ?A @ [?B]))
              = Inr (JArr ([] @ JObj ?K # (replicate 9 ?A @ [?B])))
            \<and> length ([] :: json list) < 10
            \<and> hostname_of_entry urlparse_hostname ?K = None
            \<and> organic_results_of (organic_body (replicate 9 ?A))
              = Inr (JArr ([] @ take (9 - length ([] :: json list)) (replicate 9 ?A @ [?B])))"
    using k by (simp add: organic_results_of_organic_body)
  have v: "parse_organic_results urlparse_hostname (organic_body (replicate 9 ?A))
             = Inr [(''a.com'', 9)]"
    by code_simp
  from h1 h2 v show ?thesis
    using
      parse_considers_first_ten [where a = "organic_body (replicate 10 ?A @ [?B])"
        and xs = "replicate 10 ?A @ [?B]" and b = "organic_body (replicate 10 ?A)"
        and ys = "replicate 10 ?A" and up = urlparse_hostname, THEN conjunct1]
      parse_considers_first_ten [where a = "organic_body (JObj ?K # replicate 9 ?A @ [?B])"
        and pre = "[]" and kvs = ?K and post = "replicate 9 ?A @ [?B]"
        and b = "organic_body (replicate 9 ?A)" and up = urlparse_hostname, THEN conjunct2]
    by blast
qed

text \<open>
  Claim C5. For a body whose first ten organic entries are objects, the mapping
  returned has one key for each distinct hostname that survives among those entries,
  and the value of a key is the number of its occurrences there. In particular the
  hostnames a, a, a, b, b, c, c, c, c, d give the mapping of a to 3, b to 2, c to 4
  and d to 1.
\<close>

theorem parse_counts_occurrences:
  assumes "organic_results_of json_data = Inr (JArr es)"
    and "take 10 es = map JObj entries"
  shows "\<exists>m. parse_organic_results up json_data = Inr m
      \<and> distinct (map fst m)
      \<and> (\<forall>h. map_of m h =
            (if h \<in> set (surviving_hostnames up entries)
             then Some (count_list (surviving_hostnames up entries) h) else None))
      \<and> (\<forall>a b c d. surviving_hostnames up entries = [a, a, a, b, b, c, c, c, c, d]
             \<and> distinct [a, b, c, d]
           \<longrightarrow> map_of m = [a \<mapsto> 3, b \<mapsto> 2, c \<mapsto> 4, d \<mapsto> 1])"
proof -
  let ?hosts = "surviving_hostnames up entries"
  have p: "parse_organic_results up json_data = Inr (value_counts ?hosts)"
    using assms by (simp add: parse_via_organic collect_links_objects)
  have ex: "\<forall>a b c d. ?hosts = [a, a, a, b, b, c, c, c, c, d] \<and> distinct [a, b, c, d]
           \<longrightarrow> map_of (value_counts ?hosts) = [a \<mapsto> 3, b \<mapsto> 2, c \<mapsto> 4, d \<mapsto> 1]"
  proof (intro allI impI)
    fix a b c d
    assume h: "?hosts = [a, a, a, b, b, c, c, c, c, d] \<and> distinct [a, b, c, d]"
    show "map_of (value_counts ?hosts) = [a \<mapsto> 3, b \<mapsto> 2, c \<mapsto> 4, d \<mapsto> 1]"
    proof (rule ext)
      fix x
      show "map_of (value_counts ?hosts) x = [a \<mapsto> 3, b \<mapsto> 2, c \<mapsto> 4, d \<mapsto> 1] x"
        unfolding map_of_value_counts using h by auto
    qed
  qed
  show ?thesis
    using p distinct_keys_value_counts map_of_value_counts ex by blast
qed

theorem parse_counts_occurrences_witness:
  "organic_results_of (organic_body (map link_entry example_links))
     = Inr (JArr (map link_entry example_links))
   \<and> take 10 (map link_entry example_links) = map JObj (map link_fields (take 10 example_links))
   \<and> surviving_hostnames urlparse_hostname (map link_fields (take 10 example_links))
     = [''a.com'', ''a.com'', ''a.com'', ''b.org'', ''b.org'',
        ''c.net'', ''c.net'', ''c.net'', ''c.net'', ''d.io'']
   \<and> (\<exists>m. parse_organic_results urlparse_hostname (organic_body (map link_entry example_links))
            = Inr m
          \<and> map_of m = [''a.com'' \<mapsto> 3, ''b.org'' \<mapsto> 2, ''c.net'' \<mapsto> 4, ''d.io'' \<mapsto> 1])"
proof -
  have h1: "organic_results_of (organic_body (map link_entry example_links))
              = Inr (JArr (map link_entry example_links))"
    by (rule organic_results_of_organic_body)
  have h2: "take 10 (map link_entry example_links)
              = map JObj (map link_fields (take 10 example_links))"
    by (simp add: take_map link_entry_def comp_def)
  have s: "surviving_hostnames urlparse_hostname (map link_fields (take 10 example_links))
             = [''a.com'', ''a.com'', ''a.com'', ''b.org'', ''b.org'',
                ''c.net'', ''c.net'', ''c.net'', ''c.net'', ''d.io'']"
    by code_simp
  have d: "distinct [''a.com'', ''b.org'', ''c.net'', ''d.io'']"
    by simp
  from parse_counts_occurrences [OF h1 h2, of urlparse_hostname] s d
  have "\<exists>m. parse_organic_results urlparse_hostname (organic_body (map link_entry example_links))
            = Inr m
          \<and> map_of m = [''a.com'' \<mapsto> 3, ''b.org'' \<mapsto> 2, ''c.net'' \<mapsto> 4, ''d.io'' \<mapsto> 1]"
    by blast
  with h1 h2 s show ?thesis
    by blast
qed

text \<open>
  Claim C6. The claim is that the parser returns the empty mapping, and raises nothing,
  for every body in which one of the levels \<^verbatim>\<open>results\<close>, \<^verbatim>\<open>results.results\<close> and
  \<^verbatim>\<open>results.results.organic\<close> is missing. In the body \<^verbatim>\<open>{"results": null}\<close> the level
  \<^verbatim>\<open>results.results\<close> is missing, and there the second \<^verbatim>\<open>get\<close> is called on \<^verbatim>\<open>None\<close>
  and raises \<^verbatim>\<open>AttributeError\<close>: the defaults of \<^verbatim>\<open>get\<close> stand in for absent keys, not
  for values that are no objects. The same happens for a body that is not an object,
  such as the empty list.
\<close>

theorem parse_null_level_counterexample:
  "parse_organic_results urlparse_hostname (JObj [(''results'', JNull)]) = Inl AttributeError
   \<and> parse_organic_results urlparse_hostname (JObj [(''results'', JNull)]) \<noteq> Inr []
   \<and> parse_organic_results urlparse_hostname (JArr []) = Inl AttributeError"
  by (simp add: parse_organic_results_def organic_results_of_def)

text \<open>
  Claim C6, as amended. A body that is an object without the key \<^verbatim>\<open>results\<close>, or whose
  \<^verbatim>\<open>results\<close> is an object without the key \<^verbatim>\<open>results\<close>, or whose inner \<^verbatim>\<open>results\<close> is an
  object without the key \<^verbatim>\<open>organic\<close>, gives the empty mapping and no error. So does a
  body whose organic entries are objects that have no \<^verbatim>\<open>link\<close> or a link in which no
  host is found, the library finding no host in the empty string.
\<close>

theorem parse_missing_levels_empty:
  "(map_of body ''results'' = None \<longrightarrow> parse_organic_results up (JObj body) = Inr [])
   \<and> (map_of body ''results'' = Some (JObj r1) \<and> map_of r1 ''results'' = None
        \<longrightarrow> parse_organic_results up (JObj body) = Inr [])
   \<and> (map_of body ''results'' = Some (JObj r1) \<and> map_of r1 ''results'' = Some (JObj r2)
        \<and> map_of r2 ''organic'' = None
        \<longrightarrow> parse_organic_results up (JObj body) = Inr [])
   \<and> (organic_results_of json_data = Inr (JArr (map JObj entries))
        \<and> extract_hostname up (JStr []) = None
        \<and> (\<forall>kvs \<in> set entries.
              map_of kvs ''link'' = None
              \<or> (\<exists>link. map_of kvs ''link'' = Some link \<and> extract_hostname up link = None))
        \<longrightarrow> parse_organic_results up json_data = Inr [])"
proof (intro conjI impI)
  assume h: "organic_results_of json_data = Inr (JArr (map JObj entries))
        \<and> extract_hostname up (JStr []) = None
        \<and> (\<forall>kvs \<in> set entries.
              map_of kvs ''link'' = None
              \<or> (\<exists>link. map_of kvs ''link'' = Some link \<and> extract_hostname up link = None))"
  then have "\<forall>kvs \<in> set entries. hostname_of_entry up kvs = None"
    by (auto simp: hostname_of_entry_def)
  then have "\<forall>kvs \<in> set (take 10 entries). hostname_of_entry up kvs = None"
    by (meson in_set_takeD)
  then have "surviving_hostnames up (take 10 entries) = []"
    by (simp add: surviving_hostnames_def List.map_filter_def filter_empty_conv)
  then have "collect_links up (take 10 (map JObj entries)) [] = Inr []"
    by (simp add: take_map collect_links_objects)
  with h show "parse_organic_results up json_data = Inr []"
    by (simp add: parse_via_organic value_counts_Nil)
qed (simp_all add: parse_organic_results_def organic_results_of_def value_counts_Nil)

theorem parse_missing_levels_empty_witness:
  "parse_organic_results urlparse_hostname (JObj [(''status'', JStr ''error'')]) = Inr []
   \<and> parse_organic_results urlparse_hostname (JObj [(''results'', JObj [])]) = Inr []
   \<and> parse_organic_results urlparse_hostname
       (JObj [(''results'', JObj [(''results'', JObj [(''ads'', JArr [])])])]) = Inr []
   \<and> extract_hostname urlparse_hostname (JStr ''not a url'') = None
   \<and> parse_organic_results urlparse_hostname
       (organic_body (map JObj [[(''title'', JStr ''t'')], [(''link'', JStr ''not a url'')],
                                [(''link'', JNull)]])) = Inr []"
proof -
  have e: "extract_hostname urlparse_hostname (JStr []) = None"
    by code_simp
  have u: "extract_hostname urlparse_hostname (JStr ''not a url'') = None"
    by code_simp
  have n: "extract_hostname urlparse_hostname JNull = None"
    by code_simp
  let ?entries = "[[(''title'', JStr ''t'')], [(''link'', JStr ''not a url'')], [(''link'', JNull)]]"
  have h4: "organic_results_of (organic_body (map JObj ?entries)) = Inr (JArr (map JObj ?entries))
        \<and> extract_hostname urlparse_hostname (JStr []) = None
        \<and> (\<forall>kvs \<in> set ?entries.
              map_of kvs ''link'' = None
              \<or> (\<exists>link. map_of kvs ''link'' = Some link
                    \<and> extract_hostname urlparse_hostname link = None))"
    using e u n by (simp add: organic_results_of_organic_body)
  have h1: "map_of [(''status'', JStr ''error'')] ''results'' = None"
    by simp
  have h2: "map_of [(''results'', JObj [])] ''results'' = Some (JObj [])
      \<and> map_of ([] :: (string \<times> json) list) ''results'' = None"
    by simp
  have h3: "map_of [(''results'', JObj [(''results'', JObj [(''ads'', JArr [])])])] ''results''
        = Some (JObj [(''results'', JObj [(''ads'', JArr [])])])
      \<and> map_of [(''results'', JObj [(''ads'', JArr [])])] ''results''
        = Some (JObj [(''ads'', JArr [])])
      \<and> map_of [(''ads'', JArr [])] ''organic'' = None"
    by simp
  from h1 h2 h3 h4 u show ?thesis
    using
      parse_missing_levels_empty [where body = "[(''status'', JStr ''error'')]"
        and up = urlparse_hostname, THEN conjunct1]
      parse_missing_levels_empty [where body = "[(''results'', JObj [])]" and ?r1.0 = "[]"
        and up = urlparse_hostname, THEN conjunct2, THEN conjunct1]
      parse_missing_levels_empty
        [where body = "[(''results'', JObj [(''results'', JObj [(''ads'', JArr [])])])]"
        and ?r1.0 = "[(''results'', JObj [(''ads'', JArr [])])]"
        and ?r2.0 = "[(''ads'', JArr [])]"
        and up = urlparse_hostname, THEN conjunct2, THEN conjunct2, THEN conjunct1]
      parse_missing_levels_empty [where json_data = "organic_body (map JObj ?entries)"
        and entries = ?entries and up = urlparse_hostname,
        THEN conjunct2, THEN conjunct2, THEN conjunct2]
    by blast
qed

text \<open>
  Claim C10. The rows that \<open>append_to_csv\<close> writes for a mapping returned by the result
  parser are the entries of the mapping in their order, and their counts never
  increase from one row to the next.
\<close>

theorem rows_in_descending_count_order:
  assumes "parse_organic_results up json_data = Inr m"
    and "append_to_csv writable fs filename m search_term = Inr fs'"
  shows "\<exists>rows. fs' filename = fs filename @ rows
      \<and> rows = map (\<lambda>(hostname, count). (search_term, hostname, count)) m
      \<and> sorted_wrt (\<lambda>r r'. snd (snd r') \<le> snd (snd r)) rows"
proof -
  from assms(1) obtain links where m: "m = value_counts links"
    using parse_is_value_counts by blast
  have "sorted_wrt (\<lambda>a b. snd b \<le> snd a) m"
    unfolding m by (rule value_counts_descending)
  then have "sorted_wrt (\<lambda>r r'. snd (snd r') \<le> snd (snd r))
               (map (\<lambda>(hostname, count). (search_term, hostname, count)) m)"
    by (simp add: sorted_wrt_map case_prod_beta)
  moreover from assms(2) have "fs' filename = fs filename
      @ map (\<lambda>(hostname, count). (search_term, hostname, count)) m"
    by (auto simp: append_to_csv_def split: if_splits)
  ultimately show ?thesis
    by blast
qed

theorem rows_in_descending_count_order_witness:
  "parse_organic_results urlparse_hostname (organic_body (map link_entry example_links))
     = Inr example_counts
   \<and> (\<exists>rows. ((\<lambda>f. [])(''output.csv'' :=
                  map (\<lambda>(hostname, count). (''shoes'', hostname, count)) example_counts))
               ''output.csv'' = [] @ rows
          \<and> rows = [(''shoes'', ''c.net'', 4), (''shoes'', ''a.com'', 3),
                     (''shoes'', ''b.org'', 2), (''shoes'', ''d.io'', 1)]
          \<and> sorted_wrt (\<lambda>r r'. snd (snd r') \<le> snd (snd r)) rows)"
proof -
  have p: "parse_organic_results urlparse_hostname (organic_body (map link_entry example_links))
             = Inr example_counts"
    by code_simp
  have a: "append_to_csv (\<lambda>f. True) (\<lambda>f. []) ''output.csv'' example_counts ''shoes''
             = Inr ((\<lambda>f. [])(''output.csv'' :=
                  map (\<lambda>(hostname, count). (''shoes'', hostname, count)) example_counts))"
    by (simp add: append_to_csv_def)
  have e: "map (\<lambda>(hostname, count). (''shoes'', hostname, count)) example_counts
             = [(''shoes'', ''c.net'', 4), (''shoes'', ''a.com'', 3),
                (''shoes'', ''b.org'', 2), (''shoes'', ''d.io'', 1)]"
    by (simp add: example_counts_def)
  from rows_in_descending_count_order [OF p a] p e show ?thesis
    by simp
qed

section \<open>The API call\<close>

lemma post_and_parse_term: "fst (post_and_parse up po url headers request t) = t"
  by (simp add: post_and_parse_def split: sum.splits)

lemma post_and_parse_Some:
  assumes "post_and_parse up po url headers request t = (t', Some m)"
  shows "\<exists>response json_data.
           po url headers request = Inr response
         \<and> status_code response = 200 \<and> json_body response = Inr json_data
         \<and> parse_organic_results up json_data = Inr m"
  using assms by (auto simp: post_and_parse_def split: sum.splits if_splits)

lemma call_api_payload: "fst (call_api up po url key p t) = set_search_term p t"
  by (simp add: call_api_def Let_def)

lemma call_api_sends:
  "snd (call_api up po url key p t)
     = post_and_parse up po url (request_headers key) (set_search_term p t) t"
  by (simp add: call_api_def Let_def)

lemma set_search_term_twice: "set_search_term (set_search_term p w) t = set_search_term p t"
  by (simp add: set_search_term_def)

lemma call_api_overwrite:
  "snd (call_api up po url key (set_search_term p w) t) = snd (call_api up po url key p t)"
  by (simp add: call_api_def Let_def set_search_term_twice)

lemma call_api_term: "fst (snd (call_api up po url key p t)) = t"
  by (simp add: call_api_sends post_and_parse_term)

lemma call_api_Some:
  assumes "snd (call_api up po url key p t) = (t', Some m)"
  shows "\<exists>response json_data.
           po url (request_headers key) (set_search_term p t) = Inr response
         \<and> status_code response = 200 \<and> json_body response = Inr json_data
         \<and> parse_organic_results up json_data = Inr m"
  using assms unfolding call_api_sends by (rule post_and_parse_Some)

text \<open>
  Claim C3. The claim is that on a response with status 200 \<open>call_api\<close> returns the
  term with the mapping of the result parser, and the absence marker only when the
  status is not 200 or the transport fails. For the term scarves the response has
  status 200 and a body that decodes, \<^verbatim>\<open>{"results": null}\<close>; the result parser raises
  on it, the \<^verbatim>\<open>except\<close> clause catches that, and the result is the absence marker.
\<close>

theorem call_api_parser_failure_counterexample:
  "example_post example_url (request_headers ''secret'')
       (set_search_term example_template ''scarves'')
     = Inr \<lparr>status_code = 200, json_body = Inr (JObj [(''results'', JNull)])\<rparr>
   \<and> snd (call_api urlparse_hostname example_post example_url ''secret'' example_template
            ''scarves'') = (''scarves'', None)"
  by code_simp

text \<open>
  Claim C3, as amended. The first component of the pair that \<open>call_api\<close> returns is the
  term it was given. When the response has status 200, its body decodes and the
  result parser returns a mapping for it, the second component is that mapping; when
  the request raises, the status is not 200, the body does not decode or the result
  parser raises, it is the absence marker. The function has a result in each of these
  cases, which are all there are: no exception leaves it.
\<close>

theorem call_api_result:
  "fst (snd (call_api up post api_url api_key payload search_term)) = search_term
   \<and> (\<forall>e. post api_url (request_headers api_key) (set_search_term payload search_term) = Inl e
        \<longrightarrow> snd (call_api up post api_url api_key payload search_term) = (search_term, None))
   \<and> (\<forall>response.
        post api_url (request_headers api_key) (set_search_term payload search_term) = Inr response
        \<and> status_code response \<noteq> 200
        \<longrightarrow> snd (call_api up post api_url api_key payload search_term) = (search_term, None))
   \<and> (\<forall>response e.
        post api_url (request_headers api_key) (set_search_term payload search_term) = Inr response
        \<and> status_code response = 200 \<and> json_body response = Inl e
        \<longrightarrow> snd (call_api up post api_url api_key payload search_term) = (search_term, None))
   \<and> (\<forall>response json_data m.
        post api_url (request_headers api_key) (set_search_term payload search_term) = Inr response
        \<and> status_code response = 200 \<and> json_body response = Inr json_data
        \<and> parse_organic_results up json_data = Inr m
        \<longrightarrow> snd (call_api up post api_url api_key payload search_term) = (search_term, Some m))
   \<and> (\<forall>response json_data e.
        post api_url (request_headers api_key) (set_search_term payload search_term) = Inr response
        \<and> status_code response = 200 \<and> json_body response = Inr json_data
        \<and> parse_organic_results up json_data = Inl e
        \<longrightarrow> snd (call_api up post api_url api_key payload search_term) = (search_term, None))"
  by (simp add: call_api_def post_and_parse_def Let_def split: sum.splits)

theorem call_api_result_witness:
  "snd (call_api urlparse_hostname example_post example_url ''secret'' example_template ''shoes'')
     = (''shoes'', Some example_counts)
   \<and> snd (call_api urlparse_hostname example_post example_url ''secret'' example_template ''socks'')
     = (''socks'', None)
   \<and> snd (call_api urlparse_hostname example_post example_url ''secret'' example_template ''gloves'')
     = (''gloves'', None)
   \<and> snd (call_api urlparse_hostname example_post example_url ''secret'' example_template ''belts'')
     = (''belts'', None)
   \<and> snd (call_api urlparse_hostname example_post example_url ''secret'' example_template ''scarves'')
     = (''scarves'', None)"
proof -
  let ?post = "\<lambda>t. example_post example_url (request_headers ''secret'')
                      (set_search_term example_template t)"
  have shoes: "?post ''shoes''
      = Inr \<lparr>status_code = 200, json_body = Inr (organic_body (map link_entry example_links))\<rparr>"
    by code_simp
  have parsed: "parse_organic_results urlparse_hostname (organic_body (map link_entry example_links))
      = Inr example_counts"
    by code_simp
  have socks: "?post ''socks''
      = Inr \<lparr>status_code = 500, json_body = Inr (JObj [(''status'', JStr ''error'')])\<rparr>"
    by code_simp
  have gloves: "?post ''gloves'' = Inl RequestException"
    by code_simp
  have belts: "?post ''belts'' = Inr \<lparr>status_code = 200, json_body = Inl JSONDecodeError\<rparr>"
    by code_simp
  have scarves: "?post ''scarves''
      = Inr \<lparr>status_code = 200, json_body = Inr (JObj [(''results'', JNull)])\<rparr>"
    by code_simp
  have raised: "parse_organic_results urlparse_hostname (JObj [(''results'', JNull)])
      = Inl AttributeError"
    by code_simp
  show ?thesis
    using shoes parsed socks gloves belts scarves raised
      call_api_result [where up = urlparse_hostname and post = example_post
        and api_url = example_url and api_key = "''secret''" and payload = example_template
        and search_term = "''shoes''"]
      call_api_result [where up = urlparse_hostname and post = example_post
        and api_url = example_url and api_key = "''secret''" and payload = example_template
        and search_term = "''socks''"]
      call_api_result [where up = urlparse_hostname and post = example_post
        and api_url = example_url and api_key = "''secret''" and payload = example_template
        and search_term = "''gloves''"]
      call_api_result [where up = urlparse_hostname and post = example_post
        and api_url = example_url and api_key = "''secret''" and payload = example_template
        and search_term = "''belts''"]
      call_api_result [where up = urlparse_hostname and post = example_post
        and api_url = example_url and api_key = "''secret''" and payload = example_template
        and search_term = "''scarves''"]
    by simp
qed

text \<open>
  Claim C1. The claim is that \<open>call_api\<close> sets the term on a copy and leaves the shared
  template as it was. The code assigns into the payload it was handed: after the call
  for the term shoes the template of the caller holds \<^verbatim>\<open>q = shoes\<close>, and after the calls
  of a batch it holds the term of the last call. When two workers assign before the
  first of them sends, the request of the call for shoes goes out with \<^verbatim>\<open>q = socks\<close>.
\<close>

theorem call_api_overwrites_shared_template:
  "fst (call_api urlparse_hostname example_post example_url ''secret'' example_template ''shoes'')
     = \<lparr>data = data example_template @ [(''q'', ''shoes'')]\<rparr>
   \<and> fst (call_api urlparse_hostname example_post example_url ''secret'' example_template ''shoes'')
     \<noteq> example_template
   \<and> fst (submit_calls urlparse_hostname (\<lambda>i. example_post) example_url ''secret''
            example_template 0 example_terms)
     = \<lparr>data = data example_template @ [(''q'', ''scarves'')]\<rparr>
   \<and> requests_sent [''shoes'', ''socks'']
         [Assign_term 0, Assign_term 1, Send_request 0, Send_request 1] example_template
     = [(0, \<lparr>data = data example_template @ [(''q'', ''socks'')]\<rparr>),
        (1, \<lparr>data = data example_template @ [(''q'', ''socks'')]\<rparr>)]"
  by (simp add: call_api_def Let_def set_search_term_def example_template_def example_terms_def
        split: prod.splits)

section \<open>The batch\<close>

subsection \<open>Calls made one after the other\<close>

lemma submit_calls_futures:
  "snd (submit_calls up post url key p i terms) =
     map (\<lambda>(k, t). (snd (call_api up (post k) url key p t), t)) (zip [i..<i + length terms] terms)"
proof (induction terms arbitrary: p i)
  case Nil
  show ?case by simp
next
  case (Cons t ts)
  have z: "[i..<i + length (t # ts)] = i # [Suc i..<Suc i + length ts]"
    using upt_conv_Cons [of i "i + length (t # ts)"] by simp
  obtain p' r where c: "call_api up (post i) url key p t = (p', r)"
    by (cases "call_api up (post i) url key p t")
  then have p': "p' = set_search_term p t" and r: "r = snd (call_api up (post i) url key p t)"
    using call_api_payload [of up "post i" url key p t] by simp_all
  have "snd (submit_calls up post url key p i (t # ts))
          = (r, t) # snd (submit_calls up post url key p' (Suc i) ts)"
    using c by (simp split: prod.splits)
  also have "\<dots> = (r, t) # map (\<lambda>(k, t). (snd (call_api up (post k) url key p t), t))
                               (zip [Suc i..<Suc i + length ts] ts)"
    by (simp add: Cons p' call_api_overwrite)
  also have "\<dots> = map (\<lambda>(k, t). (snd (call_api up (post k) url key p t), t))
                     (zip (i # [Suc i..<Suc i + length ts]) (t # ts))"
    by (simp add: r)
  finally show ?case
    unfolding z .
qed

lemma requests_sent_sequential:
  assumes "\<And>t. set_search_term p' t = set_search_term p t" and "n \<le> length terms"
  shows "requests_sent terms (concat (map (\<lambda>i. [Assign_term i, Send_request i]) [k..<n])) p'
           = map (\<lambda>i. (i, set_search_term p (terms ! i))) [k..<n]"
  using assms
proof (induction "n - k" arbitrary: k p')
  case 0
  then show ?case by simp
next
  case (Suc d)
  then have k: "k < n" and u: "[k..<n] = k # [Suc k..<n]"
    by (simp_all add: upt_conv_Cons)
  have d: "d = n - Suc k"
    using Suc.hyps(2) by simp
  have next_p: "\<And>t. set_search_term (set_search_term p' (terms ! k)) t = set_search_term p t"
    by (simp add: set_search_term_twice Suc.prems(1))
  show ?case
    unfolding u using k Suc.prems(2) Suc.hyps(1) [OF d next_p Suc.prems(2)]
    by (simp add: Suc.prems(1))
qed

text \<open>The run of \<open>submit_calls\<close> is the run of the pool under the sequential schedule.\<close>

lemma pool_futures_sequential:
  "pool_futures up post url key terms (sequential_schedule (length terms)) p
     = snd (submit_calls up post url key p 0 terms)"
proof -
  have z: "zip [0..<length terms] terms = map (\<lambda>i. (i, terms ! i)) [0..<length terms]"
    by (rule nth_equalityI) simp_all
  have "requests_sent terms (sequential_schedule (length terms)) p
          = map (\<lambda>i. (i, set_search_term p (terms ! i))) [0..<length terms]"
    unfolding sequential_schedule_def by (rule requests_sent_sequential) simp_all
  then show ?thesis
    by (simp add: pool_futures_def submit_calls_futures z call_api_sends comp_def)
qed

subsection \<open>The requests of a schedule\<close>

lemma requests_sent_index:
  "(i, request) \<in> set (requests_sent terms steps p) \<Longrightarrow> i < length terms"
  by (induction terms steps p rule: requests_sent.induct) (auto split: if_splits)

lemma set_requests_sent:
  "fst ` set (requests_sent terms steps p) = {i. i < length terms \<and> Send_request i \<in> set steps}"
  by (induction terms steps p rule: requests_sent.induct) auto

lemma distinct_requests_sent:
  "distinct steps \<Longrightarrow> distinct (map fst (requests_sent terms steps p))"
proof (induction terms steps p rule: requests_sent.induct)
  case (3 terms i steps payload)
  have "i \<notin> fst ` set (requests_sent terms steps payload)"
    using "3.prems" by (simp add: set_requests_sent)
  with 3 show ?case
    by simp
qed simp_all

lemma valid_schedule_sends:
  assumes "valid_schedule k (length terms) steps"
  shows "mset (map fst (requests_sent terms steps p)) = mset [0..<length terms]"
proof -
  from assms have d: "distinct steps"
    and s: "set steps = set (map Assign_term [0..<length terms] @ map Send_request [0..<length terms])"
    by (simp_all add: valid_schedule_def)
  have "set (map fst (requests_sent terms steps p)) = {i. i < length terms \<and> Send_request i \<in> set steps}"
    using set_requests_sent [of terms steps p] by simp
  also have "\<dots> = set [0..<length terms]"
    unfolding s by auto
  finally have "set (map fst (requests_sent terms steps p)) = set [0..<length terms]" .
  moreover have "distinct (map fst (requests_sent terms steps p))"
    using d by (rule distinct_requests_sent)
  ultimately show ?thesis
    by (metis set_eq_iff_mset_eq_distinct distinct_upt)
qed

lemma pool_futures_source:
  assumes "f \<in> set (pool_futures up post url key terms steps p)"
  shows "\<exists>(i, request) \<in> set (requests_sent terms steps p).
           f = (post_and_parse up (post i) url (request_headers key) request (terms ! i), terms ! i)"
  using assms by (auto simp: pool_futures_def)

lemma pool_futures_own_term:
  "\<forall>f \<in> set (pool_futures up post url key terms steps p). fst (fst f) = snd f"
  by (auto simp: pool_futures_def post_and_parse_term)

lemma pool_futures_terms:
  assumes "valid_schedule k (length terms) steps"
  shows "mset (map snd (pool_futures up post url key terms steps p)) = mset terms"
proof -
  have "map snd (pool_futures up post url key terms steps p)
          = map (\<lambda>i. terms ! i) (map fst (requests_sent terms steps p))"
    by (simp add: pool_futures_def comp_def case_prod_beta)
  then have "mset (map snd (pool_futures up post url key terms steps p))
          = mset (map (\<lambda>i. terms ! i) (map fst (requests_sent terms steps p)))"
    by (rule arg_cong)
  also have "\<dots> = image_mset (\<lambda>i. terms ! i) (mset (map fst (requests_sent terms steps p)))"
    by (rule mset_map)
  also have "\<dots> = image_mset (\<lambda>i. terms ! i) (mset [0..<length terms])"
    unfolding valid_schedule_sends [OF assms] ..
  also have "\<dots> = mset (map (\<lambda>i. terms ! i) [0..<length terms])"
    by simp
  also have "\<dots> = mset terms"
    by (simp add: map_nth)
  finally show ?thesis .
qed

subsection \<open>The loop over the finished futures\<close>

lemma handle_future_files:
  "files (handle_future w out f st) =
     (if w out then (files st)(out := files st out @ rows_of f) else files st)"
proof -
  obtain t r t' where f: "f = ((t, r), t')"
    by (metis surj_pair)
  show ?thesis
    by (auto simp: f rows_of_def append_to_csv_def split: option.splits)
qed

lemma handle_future_notices:
  "notices (handle_future w out f st) = notices st @ notices_of (w out) f"
proof -
  obtain t r t' where f: "f = ((t, r), t')"
    by (metis surj_pair)
  show ?thesis
    by (auto simp: f notices_of_def succeeded_def append_to_csv_def split: option.splits)
qed

lemma handle_future_results:
  "results (handle_future w out f st) = results st @ results_of (w out) f"
proof -
  obtain t r t' where f: "f = ((t, r), t')"
    by (metis surj_pair)
  show ?thesis
    by (auto simp: f results_of_def append_to_csv_def split: option.splits)
qed

lemma consume_files:
  "files (consume w out fs st) =
     (if w out then (files st)(out := files st out @ concat (map rows_of fs)) else files st)"
  by (induction fs arbitrary: st) (auto simp: handle_future_files simp del: handle_future.simps)

lemma consume_notices:
  "notices (consume w out fs st) = notices st @ concat (map (notices_of (w out)) fs)"
  by (induction fs arbitrary: st) (auto simp: handle_future_notices simp del: handle_future.simps)

lemma consume_results:
  "results (consume w out fs st) = results st @ concat (map (results_of (w out)) fs)"
  by (induction fs arbitrary: st) (auto simp: handle_future_results simp del: handle_future.simps)

lemma mset_notices_of:
  "mset (concat (map (notices_of w) fs)) =
     image_mset (\<lambda>f. Failed_to_process (fst (fst f))) {#f \<in># mset fs. \<not> succeeded f#}
     + (if w then {#}
        else image_mset (\<lambda>f. Error_processing (snd f) OSError) {#f \<in># mset fs. succeeded f#})"
  by (induction fs) (auto simp: notices_of_def)

lemma mset_accounted:
  assumes "\<forall>f \<in> set fs. fst (fst f) = snd f"
  shows "mset (map fst (concat (map (results_of w) fs)))
         + mset (map notice_term (concat (map (notices_of w) fs)))
         = mset (map snd fs)"
  using assms
  by (induction fs) (auto simp: results_of_def notices_of_def succeeded_def split: option.splits)

lemma mset_rotate: "mset (rotate n xs) = mset xs"
proof (induction n)
  case 0
  show ?case by simp
next
  case (Suc n)
  have "mset (rotate1 ys) = mset ys" for ys :: "'a list"
    by (cases ys) simp_all
  with Suc show ?case by simp
qed

lemma process_in_batches_state:
  assumes "process_in_batches up post schedule as_completed writable fs
             api_url api_key payload search_terms output_csv batch_size = Inr (payload', st)"
    and "futures = pool_futures up post api_url api_key search_terms schedule payload"
  shows "st = consume writable output_csv (as_completed futures)
                \<lparr>results = [], files = fs, notices = []\<rparr>"
  using assms by (auto simp: process_in_batches_def split: if_splits)

lemma process_in_batches_run:
  assumes "0 < batch_size"
  shows "process_in_batches up post schedule as_completed writable fs
           api_url api_key payload search_terms output_csv batch_size
         = Inr (payload_after search_terms schedule payload,
                consume writable output_csv
                  (as_completed (pool_futures up post api_url api_key search_terms schedule payload))
                  \<lparr>results = [], files = fs, notices = []\<rparr>)"
  using assms by (simp add: process_in_batches_def)

text \<open>
  Claim C2. In a batch run, whatever the schedule of the workers and the order of
  completion, every row added to the output file carries the term of a call whose
  request, with the payload it went out with, was answered with status 200 and a body
  for which the result parser returned a mapping with at least one hostname, and the
  hostname and count of the row are an entry of that mapping. A term none of whose
  calls succeeded has no row. Each future whose call failed or whose mapping is empty
  has exactly one notice \<open>Failed_to_process\<close> with its term, and there are no other
  notices unless the output file cannot be opened.
\<close>

theorem rows_only_for_successful_calls:
  assumes run: "process_in_batches up post schedule as_completed writable fs
                  api_url api_key payload search_terms output_csv batch_size = Inr (payload', st)"
    and futures: "futures = pool_futures up post api_url api_key search_terms schedule payload"
    and completed: "mset (as_completed futures) = mset futures"
  shows "\<exists>rows. files st output_csv = fs output_csv @ rows
      \<and> (\<forall>(t, h, c) \<in> set rows.
           \<exists>(i, request) \<in> set (requests_sent search_terms schedule payload).
           \<exists>response json_data m.
             i < length search_terms \<and> search_terms ! i = t
           \<and> post i api_url (request_headers api_key) request = Inr response
           \<and> status_code response = 200 \<and> json_body response = Inr json_data
           \<and> parse_organic_results up json_data = Inr m \<and> m \<noteq> [] \<and> (h, c) \<in> set m)
      \<and> (\<forall>t. (\<forall>f \<in> set futures. snd f = t \<longrightarrow> \<not> succeeded f)
             \<longrightarrow> (\<forall>row \<in> set rows. fst row \<noteq> t))
      \<and> mset (notices st) =
          image_mset (\<lambda>f. Failed_to_process (fst (fst f))) {#f \<in># mset futures. \<not> succeeded f#}
          + (if writable output_csv then {#}
             else image_mset (\<lambda>f. Error_processing (snd f) OSError)
                    {#f \<in># mset futures. succeeded f#})"
proof -
  let ?done = "as_completed futures"
  let ?rows = "if writable output_csv then concat (map rows_of ?done) else []"
  have st: "st = consume writable output_csv ?done \<lparr>results = [], files = fs, notices = []\<rparr>"
    using process_in_batches_state [OF run futures] .
  have files: "files st output_csv = fs output_csv @ ?rows"
    by (simp add: st consume_files)
  have src: "\<exists>f \<in> set futures. row \<in> set (rows_of f)" if "row \<in> set ?rows" for row
  proof -
    from that obtain f where "f \<in> set ?done" and "row \<in> set (rows_of f)"
      by (auto split: if_splits)
    with completed show ?thesis
      by (metis set_mset_mset)
  qed
  have rows: "\<forall>(t, h, c) \<in> set ?rows.
           \<exists>(i, request) \<in> set (requests_sent search_terms schedule payload).
           \<exists>response json_data m.
             i < length search_terms \<and> search_terms ! i = t
           \<and> post i api_url (request_headers api_key) request = Inr response
           \<and> status_code response = 200 \<and> json_body response = Inr json_data
           \<and> parse_organic_results up json_data = Inr m \<and> m \<noteq> [] \<and> (h, c) \<in> set m"
  proof (clarify)
    fix t h c
    assume "(t, h, c) \<in> set ?rows"
    from src [OF this] obtain f where f: "f \<in> set futures" and r: "(t, h, c) \<in> set (rows_of f)"
      by blast
    from f obtain i request where ir: "(i, request) \<in> set (requests_sent search_terms schedule payload)"
      and fi: "f = (post_and_parse up (post i) api_url (request_headers api_key) request
                      (search_terms ! i), search_terms ! i)"
      using pool_futures_source [of f up post api_url api_key search_terms schedule payload]
      unfolding futures by blast
    have il: "i < length search_terms"
      using ir by (rule requests_sent_index)
    from r obtain m where m: "snd (fst f) = Some m" and t: "t = fst (fst f)" and hc: "(h, c) \<in> set m"
      by (cases "snd (fst f)") (auto simp: rows_of_def)
    have tt: "t = search_terms ! i"
      using t fi by (simp add: post_and_parse_term)
    have "post_and_parse up (post i) api_url (request_headers api_key) request (search_terms ! i)
            = (t, Some m)"
      using m t fi by (metis fst_conv prod.collapse)
    from post_and_parse_Some [OF this] obtain response json_data where
      "post i api_url (request_headers api_key) request = Inr response"
      "status_code response = 200" "json_body response = Inr json_data"
      "parse_organic_results up json_data = Inr m"
      by blast
    moreover have "m \<noteq> []"
      using hc by auto
    ultimately have "\<exists>response json_data m.
             i < length search_terms \<and> search_terms ! i = t
           \<and> post i api_url (request_headers api_key) request = Inr response
           \<and> status_code response = 200 \<and> json_body response = Inr json_data
           \<and> parse_organic_results up json_data = Inr m \<and> m \<noteq> [] \<and> (h, c) \<in> set m"
      using il tt hc by blast
    with ir show "\<exists>(i, request) \<in> set (requests_sent search_terms schedule payload).
           \<exists>response json_data m.
             i < length search_terms \<and> search_terms ! i = t
           \<and> post i api_url (request_headers api_key) request = Inr response
           \<and> status_code response = 200 \<and> json_body response = Inr json_data
           \<and> parse_organic_results up json_data = Inr m \<and> m \<noteq> [] \<and> (h, c) \<in> set m"
      by blast
  qed
  have none: "\<forall>t. (\<forall>f \<in> set futures. snd f = t \<longrightarrow> \<not> succeeded f)
             \<longrightarrow> (\<forall>row \<in> set ?rows. fst row \<noteq> t)"
  proof (intro allI impI ballI)
    fix t row
    assume failed: "\<forall>f \<in> set futures. snd f = t \<longrightarrow> \<not> succeeded f" and "row \<in> set ?rows"
    from src [OF this(2)] obtain f where f: "f \<in> set futures" and r: "row \<in> set (rows_of f)"
      by blast
    from r have "succeeded f" and "fst row = fst (fst f)"
      by (cases "snd (fst f)"; auto simp: rows_of_def succeeded_def)+
    moreover have "fst (fst f) = snd f"
      using pool_futures_own_term f unfolding futures by blast
    ultimately show "fst row \<noteq> t"
      using failed f by auto
  qed
  have "mset (notices st) = mset (concat (map (notices_of (writable output_csv)) ?done))"
    by (simp add: st consume_notices)
  then have notices: "mset (notices st) =
          image_mset (\<lambda>f. Failed_to_process (fst (fst f))) {#f \<in># mset futures. \<not> succeeded f#}
          + (if writable output_csv then {#}
             else image_mset (\<lambda>f. Error_processing (snd f) OSError)
                    {#f \<in># mset futures. succeeded f#})"
    unfolding mset_notices_of completed .
  from files rows none notices show ?thesis
    by blast
qed

theorem rows_only_for_successful_calls_witness:
  "\<exists>payload' st.
     process_in_batches urlparse_hostname (\<lambda>i. example_post) example_schedule rev (\<lambda>f. True)
       (\<lambda>f. []) example_url ''secret'' example_template example_terms ''output.csv'' 2
       = Inr (payload', st)
     \<and> (\<exists>rows. files st ''output.csv'' = [] @ rows
          \<and> rows = map (\<lambda>(h, c). (''shoes'', h, c)) example_counts
                   @ map (\<lambda>(h, c). (''socks'', h, c)) example_counts
          \<and> (\<forall>(t, h, c) \<in> set rows.
               \<exists>(i, request) \<in> set (requests_sent example_terms example_schedule example_template).
               \<exists>response json_data m.
                 i < length example_terms \<and> example_terms ! i = t
               \<and> example_post example_url (request_headers ''secret'') request = Inr response
               \<and> status_code response = 200 \<and> json_body response = Inr json_data
               \<and> parse_organic_results urlparse_hostname json_data = Inr m \<and> m \<noteq> []
               \<and> (h, c) \<in> set m))
     \<and> mset (notices st)
         = {#Failed_to_process ''hats'', Failed_to_process ''gloves'',
             Failed_to_process ''scarves''#}"
proof -
  let ?F = "pool_futures urlparse_hostname (\<lambda>i. example_post) example_url ''secret''
              example_terms example_schedule example_template"
  let ?P = "payload_after example_terms example_schedule example_template"
  let ?ST = "consume (\<lambda>f. True) ''output.csv'' (rev ?F)
               \<lparr>results = [], files = (\<lambda>f. []), notices = []\<rparr>"
  have run: "process_in_batches urlparse_hostname (\<lambda>i. example_post) example_schedule rev
       (\<lambda>f. True) (\<lambda>f. []) example_url ''secret'' example_template example_terms ''output.csv'' 2
       = Inr (?P, ?ST)"
    by (rule process_in_batches_run) simp
  have completed: "mset (rev ?F) = mset ?F"
    by simp
  have F: "?F = [((''socks'', Some example_counts), ''socks''),
                 ((''shoes'', Some example_counts), ''shoes''),
                 ((''hats'', Some []), ''hats''), ((''gloves'', None), ''gloves''),
                 ((''scarves'', None), ''scarves'')]"
    by code_simp
  have written: "files ?ST ''output.csv''
      = map (\<lambda>(h, c). (''shoes'', h, c)) example_counts
        @ map (\<lambda>(h, c). (''socks'', h, c)) example_counts"
    by code_simp
  have failed: "image_mset (\<lambda>f. Failed_to_process (fst (fst f))) {#f \<in># mset ?F. \<not> succeeded f#}
      = {#Failed_to_process ''hats'', Failed_to_process ''gloves'',
          Failed_to_process ''scarves''#}"
    unfolding F by (simp add: succeeded_def example_counts_def)
  from rows_only_for_successful_calls [OF run refl completed] written failed
  have "(\<exists>rows. files ?ST ''output.csv'' = [] @ rows
          \<and> rows = map (\<lambda>(h, c). (''shoes'', h, c)) example_counts
                   @ map (\<lambda>(h, c). (''socks'', h, c)) example_counts
          \<and> (\<forall>(t, h, c) \<in> set rows.
               \<exists>(i, request) \<in> set (requests_sent example_terms example_schedule example_template).
               \<exists>response json_data m.
                 i < length example_terms \<and> example_terms ! i = t
               \<and> example_post example_url (request_headers ''secret'') request = Inr response
               \<and> status_code response = 200 \<and> json_body response = Inr json_data
               \<and> parse_organic_results urlparse_hostname json_data = Inr m \<and> m \<noteq> []
               \<and> (h, c) \<in> set m))
     \<and> mset (notices ?ST)
         = {#Failed_to_process ''hats'', Failed_to_process ''gloves'',
             Failed_to_process ''scarves''#}"
    by auto
  with run show ?thesis
    by blast
qed

text \<open>
  Claim C8. With a pool of positive size, \<open>process_in_batches\<close> returns for every list
  of terms, every schedule of the workers and every order of completion, whatever the
  single calls did, and what it returns accounts for every term: the terms of the list
  \<^verbatim>\<open>results\<close> together with the terms of the notices are the submitted terms, each as
  often as it was submitted.
\<close>

theorem batch_accounts_for_every_term:
  assumes pool: "0 < batch_size"
    and schedule: "valid_schedule (nat batch_size) (length search_terms) schedule"
    and futures: "futures = pool_futures up post api_url api_key search_terms schedule payload"
    and completed: "mset (as_completed futures) = mset futures"
  shows "\<exists>payload' st.
      process_in_batches up post schedule as_completed writable fs
        api_url api_key payload search_terms output_csv batch_size = Inr (payload', st)
      \<and> mset (map fst (results st)) + mset (map notice_term (notices st)) = mset search_terms
      \<and> length (results st) + length (notices st) = length search_terms"
proof -
  let ?done = "as_completed futures"
  let ?st = "consume writable output_csv ?done \<lparr>results = [], files = fs, notices = []\<rparr>"
  have run: "process_in_batches up post schedule as_completed writable fs
        api_url api_key payload search_terms output_csv batch_size
        = Inr (payload_after search_terms schedule payload, ?st)"
    unfolding futures by (rule process_in_batches_run [OF pool])
  have "\<forall>f \<in> set ?done. fst (fst f) = snd f"
    using pool_futures_own_term completed unfolding futures by (metis set_mset_mset)
  from mset_accounted [OF this, of "writable output_csv"]
  have "mset (map fst (results ?st)) + mset (map notice_term (notices ?st)) = mset (map snd ?done)"
    by (simp add: consume_results consume_notices)
  also have "\<dots> = mset (map snd futures)"
    using completed by simp
  also have "\<dots> = mset search_terms"
    unfolding futures by (rule pool_futures_terms [OF schedule])
  finally have terms: "mset (map fst (results ?st)) + mset (map notice_term (notices ?st))
                        = mset search_terms" .
  then have "size (mset (map fst (results ?st)) + mset (map notice_term (notices ?st)))
               = size (mset search_terms)"
    by simp
  then have "length (results ?st) + length (notices ?st) = length search_terms"
    by simp
  with run terms show ?thesis
    by blast
qed

theorem batch_accounts_for_every_term_witness:
  "valid_schedule 2 5 example_schedule
   \<and> (\<exists>payload' st.
     process_in_batches urlparse_hostname (\<lambda>i. example_post) example_schedule (rotate 2)
       (\<lambda>f. True) (\<lambda>f. []) example_url ''secret'' example_template example_terms ''output.csv'' 2
       = Inr (payload', st)
     \<and> mset (map fst (results st)) + mset (map notice_term (notices st))
         = {#''shoes'', ''socks'', ''hats'', ''gloves'', ''scarves''#}
     \<and> length (results st) + length (notices st) = 5)"
proof -
  let ?F = "pool_futures urlparse_hostname (\<lambda>i. example_post) example_url ''secret''
              example_terms example_schedule example_template"
  have pool: "(0 :: int) < 2"
    by simp
  have valid: "valid_schedule 2 5 example_schedule"
    by code_simp
  have n: "length example_terms = 5"
    by (simp add: example_terms_def)
  have schedule: "valid_schedule (nat 2) (length example_terms) example_schedule"
    using valid by (simp add: n)
  have completed: "mset (rotate 2 ?F) = mset ?F"
    by (rule mset_rotate)
  have terms: "mset example_terms = {#''shoes'', ''socks'', ''hats'', ''gloves'', ''scarves''#}"
    by (simp add: example_terms_def)
  have futures: "?F = pool_futures urlparse_hostname (\<lambda>i. example_post) example_url ''secret''
              example_terms example_schedule example_template"
    by (rule refl)
  from batch_accounts_for_every_term [where as_completed = "rotate 2" and writable = "\<lambda>f. True"
      and fs = "\<lambda>f. []" and output_csv = "''output.csv''", OF pool schedule futures completed]
  have "\<exists>payload' st.
     process_in_batches urlparse_hostname (\<lambda>i. example_post) example_schedule (rotate 2)
       (\<lambda>f. True) (\<lambda>f. []) example_url ''secret'' example_template example_terms ''output.csv'' 2
       = Inr (payload', st)
     \<and> mset (map fst (results st)) + mset (map notice_term (notices st))
         = {#''shoes'', ''socks'', ''hats'', ''gloves'', ''scarves''#}
     \<and> length (results st) + length (notices st) = 5"
    unfolding terms n .
  with valid show ?thesis
    by blast
qed

text \<open>
  Claim C9. The claim is that two runs of the same batch on the same output file leave
  twice the rows of one run. \<open>append_to_csv\<close> does put its rows after the rows the file
  has, but the rows a run adds depend on the requests that go out, and these on the
  schedule of the workers, since all calls assign their term to the one payload (see
  claim C1). For the terms shoes and socks, the network answering shoes with a result
  page and socks with an error: a first run that makes the calls one after the other
  adds four rows, and a second run in which both calls assign before the first sends
  posts socks twice and adds none. Both schedules are schedules of a pool of fifty
  workers.
\<close>

theorem second_run_need_not_double:
  "valid_schedule 50 2 (sequential_schedule 2)
   \<and> valid_schedule 50 2 [Assign_term 0, Assign_term 1, Send_request 0, Send_request 1]
   \<and> (\<exists>payload1 st1 payload2 st2.
        process_in_batches urlparse_hostname (\<lambda>i. example_post) (sequential_schedule 2)
          (\<lambda>futures. futures) (\<lambda>f. True) (\<lambda>f. [])
          example_url ''secret'' example_template [''shoes'', ''socks''] ''output.csv'' 50
          = Inr (payload1, st1)
      \<and> process_in_batches urlparse_hostname (\<lambda>i. example_post)
          [Assign_term 0, Assign_term 1, Send_request 0, Send_request 1]
          (\<lambda>futures. futures) (\<lambda>f. True) (files st1)
          example_url ''secret'' example_template [''shoes'', ''socks''] ''output.csv'' 50
          = Inr (payload2, st2)
      \<and> length (files st1 ''output.csv'') = 4
      \<and> length (files st2 ''output.csv'') = 4
      \<and> length (files st2 ''output.csv'') \<noteq> 2 * length (files st1 ''output.csv''))"
proof -
  let ?racing = "[Assign_term 0, Assign_term 1, Send_request 0, Send_request 1]"
  let ?terms = "[''shoes'', ''socks'']"
  let ?ST1 = "consume (\<lambda>f. True) ''output.csv''
                (pool_futures urlparse_hostname (\<lambda>i. example_post) example_url ''secret''
                   ?terms (sequential_schedule 2) example_template)
                \<lparr>results = [], files = (\<lambda>f. []), notices = []\<rparr>"
  let ?ST2 = "consume (\<lambda>f. True) ''output.csv''
                (pool_futures urlparse_hostname (\<lambda>i. example_post) example_url ''secret''
                   ?terms ?racing example_template)
                \<lparr>results = [], files = files ?ST1, notices = []\<rparr>"
  have v1: "valid_schedule 50 2 (sequential_schedule 2)"
    by code_simp
  have v2: "valid_schedule 50 2 ?racing"
    by code_simp
  have run1: "process_in_batches urlparse_hostname (\<lambda>i. example_post) (sequential_schedule 2)
          (\<lambda>futures. futures) (\<lambda>f. True) (\<lambda>f. [])
          example_url ''secret'' example_template ?terms ''output.csv'' 50
          = Inr (payload_after ?terms (sequential_schedule 2) example_template, ?ST1)"
    by (rule process_in_batches_run) simp
  have run2: "process_in_batches urlparse_hostname (\<lambda>i. example_post) ?racing
          (\<lambda>futures. futures) (\<lambda>f. True) (files ?ST1)
          example_url ''secret'' example_template ?terms ''output.csv'' 50
          = Inr (payload_after ?terms ?racing example_template, ?ST2)"
    by (rule process_in_batches_run) simp
  have first: "length (files ?ST1 ''output.csv'') = 4"
    by code_simp
  have second: "length (files ?ST2 ''output.csv'') = 4"
    by code_simp
  have "length (files ?ST2 ''output.csv'') \<noteq> 2 * length (files ?ST1 ''output.csv'')"
    unfolding first second by simp
  with v1 v2 run1 run2 first second show ?thesis
    by blast
qed

end
